theory Spec2Isabelle
  imports Main "HOL-Library.Multiset"
begin

section \<open>An evolutionary algorithm for the N queens problem (ec.py)\<close>

text \<open>
  The program keeps a population of boards, recombines the two best ones, mutates boards
  at random, sorts the population by fitness and cuts it back to its configured size,
  until a board with \<open>n\<close> valid queens is found or the iteration limit is reached.

  Python raises where HOL would return an unspecified value, so every function that can
  raise returns a sum: \<open>Inl\<close> the exception, \<open>Inr\<close> the result.
\<close>

datatype error = IndexError | ValueError

subsection \<open>The random source\<close>

text \<open>
  The program draws every random number from the process-wide generator of the module
  \<open>random\<close>, seeded once. The generator is modelled as the stream of raw draws still to
  come; \<open>random.randrange(n)\<close> consumes the first one and reduces it into \<open>[0, n)\<close>.
  Any sequence of results that \<open>randrange\<close> can produce is the image of some stream, so a
  statement about all streams is a statement about all runs of the generator.
  \<open>randrange(0)\<close> raises ValueError.
\<close>

type_synonym rng = "nat \<Rightarrow> nat"

definition randrange :: "nat \<Rightarrow> rng \<Rightarrow> error + (nat \<times> rng)" where
  "randrange n g = (if n = 0 then Inl ValueError else Inr (g 0 mod n, \<lambda>i. g (Suc i)))"

subsection \<open>The class Queen (module queen)\<close>

text \<open>
  ec.py imports the class \<open>Queen\<close> from the module \<open>queen\<close>. It uses the attribute
  \<open>board\<close> (the column of the queen of every row), the attribute \<open>valid_queens\<close> (the
  cached fitness), the method \<open>update_valid_queens\<close>, the constructor \<open>Queen(n)\<close> and the
  comparison that \<open>list.sort\<close> calls. Rows, columns and the board size are natural
  numbers: every column is a result of \<open>randrange\<close> and the size is checked to be at
  least 4 before any board exists.
\<close>

record Queen =
  board :: "nat list"
  valid_queens :: nat

text \<open>
  Modelled from the spec: the attack relation of module queen. Two queens at rows
  \<open>r1\<close>, \<open>r2\<close> and columns \<open>c1\<close>, \<open>c2\<close> attack each other iff \<open>c1 = c2\<close> or
  \<open>|r1 - r2| = |c1 - c2|\<close>.
\<close>

definition attacks :: "nat \<Rightarrow> nat \<Rightarrow> nat \<Rightarrow> nat \<Rightarrow> bool" where
  "attacks r1 c1 r2 c2 \<longleftrightarrow> c1 = c2 \<or> \<bar>int r1 - int r2\<bar> = \<bar>int c1 - int c2\<bar>"

text \<open>
  Modelled from the spec: a queen is valid iff it attacks, and is attacked by, no other
  queen of the board.
\<close>

definition valid_queen :: "nat list \<Rightarrow> nat \<Rightarrow> bool" where
  "valid_queen ps r =
     list_all (\<lambda>r2. r2 = r \<or> \<not> attacks r (ps ! r) r2 (ps ! r2)) [0..<length ps]"

text \<open>
  Modelled from the spec: the fitness of module queen, the number of valid queens of a
  board.
\<close>

definition count_valid_queens :: "nat list \<Rightarrow> nat" where
  "count_valid_queens ps = length (filter (valid_queen ps) [0..<length ps])"

text \<open>
  Modelled from the spec: the method \<open>update_valid_queens\<close> of module queen, which
  recomputes the cached fitness from the positions.
\<close>

definition update_valid_queens :: "Queen \<Rightarrow> Queen" where
  "update_valid_queens q = q\<lparr>valid_queens := count_valid_queens (board q)\<rparr>"

text \<open>
  Modelled from the spec: the constructor \<open>Queen(n)\<close> of module queen. Every entry of
  the positions is drawn from \<open>[0, n)\<close>, one draw per row, and the fitness is computed.
\<close>

fun random_board :: "nat \<Rightarrow> nat \<Rightarrow> rng \<Rightarrow> error + (nat list \<times> rng)" where
  "random_board 0 n g = Inr ([], g)"
| "random_board (Suc k) n g =
     (case randrange n g of
        Inl e \<Rightarrow> Inl e
      | Inr (c, g1) \<Rightarrow>
          (case random_board k n g1 of
             Inl e \<Rightarrow> Inl e
           | Inr (cs, g2) \<Rightarrow> Inr (c # cs, g2)))"

definition Queen_init :: "nat \<Rightarrow> rng \<Rightarrow> error + (Queen \<times> rng)" where
  "Queen_init n g =
     (case random_board n n g of
        Inl e \<Rightarrow> Inl e
      | Inr (cs, g1) \<Rightarrow> Inr (update_valid_queens \<lparr>board = cs, valid_queens = 0\<rparr>, g1))"

text \<open>
  Modelled from the spec: the comparison of module queen orders boards by fitness
  alone. \<open>population.sort(reverse=True)\<close> is a stable sort: the list is reversed, sorted
  stably in ascending order and reversed again, so boards of equal fitness keep their
  order.
\<close>

definition sort_population :: "Queen list \<Rightarrow> Queen list" where
  "sort_population population = rev (sort_key valid_queens (rev population))"

text \<open>
  \<open>deepcopy\<close> builds a fresh object equal to its argument. Boards are values here, so
  the copy is the board itself; no two entries of the population share an object in the
  program (every board is built by the constructor or by \<open>deepcopy\<close>), so updating one
  board in place never changes another.
\<close>

definition deepcopy :: "Queen \<Rightarrow> Queen" where
  "deepcopy q = q"

subsection \<open>Recombination\<close>

text \<open>
  The loop \<open>for i in range(pivot, n)\<close> of \<open>permutation\<close>, over the list of its indices.
  Reading or writing an index outside a list raises IndexError.
\<close>

fun gene_loop :: "nat list \<Rightarrow> Queen \<Rightarrow> Queen \<Rightarrow> Queen \<Rightarrow> Queen \<Rightarrow> error + (Queen \<times> Queen)" where
  "gene_loop [] board_1 board_2 child_1 child_2 = Inr (child_1, child_2)"
| "gene_loop (i # ixs) board_1 board_2 child_1 child_2 =
     (if i < length (board board_2) \<and> i < length (board child_1) then
        (if i < length (board board_1) \<and> i < length (board child_2) then
           gene_loop ixs board_1 board_2
             (child_1\<lparr>board := (board child_1)[i := board board_2 ! i]\<rparr>)
             (child_2\<lparr>board := (board child_2)[i := board board_1 ! i]\<rparr>)
         else Inl IndexError)
      else Inl IndexError)"

definition permutation :: "Queen \<Rightarrow> Queen \<Rightarrow> nat \<Rightarrow> rng \<Rightarrow> error + (Queen \<times> Queen \<times> rng)" where
  "permutation board_1 board_2 n g =
     (case randrange n g of
        Inl e \<Rightarrow> Inl e
      | Inr (pivot, g1) \<Rightarrow>
          (case gene_loop [pivot..<n] board_1 board_2 (deepcopy board_1) (deepcopy board_2) of
             Inl e \<Rightarrow> Inl e
           | Inr (child_1, child_2) \<Rightarrow>
               Inr (update_valid_queens child_1, update_valid_queens child_2, g1)))"

subsection \<open>Mutation\<close>

text \<open>
  \<open>mutation\<close> draws the row, then the column, writes the column into the row and
  recomputes the fitness. The board is updated in place; the model returns the new
  board.
\<close>

definition mutation :: "Queen \<Rightarrow> nat \<Rightarrow> rng \<Rightarrow> error + (Queen \<times> rng)" where
  "mutation b n g =
     (case randrange n g of
        Inl e \<Rightarrow> Inl e
      | Inr (point, g1) \<Rightarrow>
          (case randrange n g1 of
             Inl e \<Rightarrow> Inl e
           | Inr (col, g2) \<Rightarrow>
               (if point < length (board b) then
                  Inr (update_valid_queens (b\<lparr>board := (board b)[point := col]\<rparr>), g2)
                else Inl IndexError)))"

subsection \<open>The constants and the main loop\<close>

record config =
  population_size :: nat
  probability_of_mutation :: int
  max_iterations :: nat

definition constants :: config where
  "constants = \<lparr>population_size = 10, probability_of_mutation = 50, max_iterations = 10000\<rparr>"

text \<open>The test \<open>random_number > (100 - probability_of_mutation)\<close> of the mutation pass.\<close>

definition roll_mutates :: "config \<Rightarrow> nat \<Rightarrow> bool" where
  "roll_mutates cfg random_number \<longleftrightarrow> int random_number > 100 - probability_of_mutation cfg"

text \<open>
  The pass \<open>for board in population\<close>: one roll from \<open>[0, 100)\<close> for every board, in the
  order of the list, and a mutation of the board when the roll passes the test.
\<close>

fun mutation_pass :: "config \<Rightarrow> nat \<Rightarrow> Queen list \<Rightarrow> rng \<Rightarrow> error + (Queen list \<times> rng)" where
  "mutation_pass cfg n [] g = Inr ([], g)"
| "mutation_pass cfg n (b # bs) g =
     (case randrange 100 g of
        Inl e \<Rightarrow> Inl e
      | Inr (random_number, g1) \<Rightarrow>
          (if roll_mutates cfg random_number then
             (case mutation b n g1 of
                Inl e \<Rightarrow> Inl e
              | Inr (b', g2) \<Rightarrow>
                  (case mutation_pass cfg n bs g2 of
                     Inl e \<Rightarrow> Inl e
                   | Inr (bs', g3) \<Rightarrow> Inr (b' # bs', g3)))
           else
             (case mutation_pass cfg n bs g1 of
                Inl e \<Rightarrow> Inl e
              | Inr (bs', g3) \<Rightarrow> Inr (b # bs', g3))))"

text \<open>
  The body of the loop up to and including the sort: the two children of
  \<open>population[0]\<close> and \<open>population[1]\<close> are appended, the mutation pass runs over the
  grown list, and the list is sorted.
\<close>

definition grow :: "config \<Rightarrow> nat \<Rightarrow> Queen list \<Rightarrow> rng \<Rightarrow> error + (Queen list \<times> rng)" where
  "grow cfg n population g =
     (if length population < 2 then Inl IndexError
      else
        (case permutation (population ! 0) (population ! 1) n g of
           Inl e \<Rightarrow> Inl e
         | Inr (child_1, child_2, g1) \<Rightarrow>
             (case mutation_pass cfg n (population @ [child_1, child_2]) g1 of
                Inl e \<Rightarrow> Inl e
              | Inr (mutated, g2) \<Rightarrow> Inr (sort_population mutated, g2))))"

text \<open>The whole body: the slice \<open>population[:population_size]\<close> after the sort.\<close>

definition iteration :: "config \<Rightarrow> nat \<Rightarrow> Queen list \<Rightarrow> rng \<Rightarrow> error + (Queen list \<times> rng)" where
  "iteration cfg n population g =
     (case grow cfg n population g of
        Inl e \<Rightarrow> Inl e
      | Inr (grown, g') \<Rightarrow> Inr (take (population_size cfg) grown, g'))"

text \<open>
  The \<open>while\<close> loop. Its guard reads \<open>population[0]\<close>, which raises IndexError on an
  empty population. The result is the population, the iteration count and the random
  source on exit.
\<close>

function while_loop ::
    "config \<Rightarrow> nat \<Rightarrow> Queen list \<Rightarrow> nat \<Rightarrow> rng \<Rightarrow> error + (Queen list \<times> nat \<times> rng)" where
  "while_loop cfg n population current_iteration g =
     (if population = [] then Inl IndexError
      else if valid_queens (population ! 0) \<noteq> n \<and> current_iteration < max_iterations cfg then
        (case iteration cfg n population g of
           Inl e \<Rightarrow> Inl e
         | Inr (population', g') \<Rightarrow> while_loop cfg n population' (current_iteration + 1) g')
      else Inr (population, current_iteration, g))"
  by pat_completeness auto
termination
  by (relation "measure (\<lambda>(cfg, n, population, current_iteration, g).
        max_iterations cfg - current_iteration)") auto

declare while_loop.simps [simp del]

text \<open>The initial population: \<open>population_size\<close> boards from the constructor.\<close>

fun init_population :: "nat \<Rightarrow> nat \<Rightarrow> rng \<Rightarrow> error + (Queen list \<times> rng)" where
  "init_population 0 n g = Inr ([], g)"
| "init_population (Suc k) n g =
     (case Queen_init n g of
        Inl e \<Rightarrow> Inl e
      | Inr (q, g1) \<Rightarrow>
          (case init_population k n g1 of
             Inl e \<Rightarrow> Inl e
           | Inr (qs, g2) \<Rightarrow> Inr (q # qs, g2)))"

text \<open>
  The algorithm from the first board to the exit of the loop: the initial population,
  the first sort, the loop from iteration 0.
\<close>

definition evolve :: "config \<Rightarrow> nat \<Rightarrow> rng \<Rightarrow> error + (Queen list \<times> nat \<times> rng)" where
  "evolve cfg n g =
     (case init_population (population_size cfg) n g of
        Inl e \<Rightarrow> Inl e
      | Inr (population, g1) \<Rightarrow> while_loop cfg n (sort_population population) 0 g1)"

subsection \<open>Well-formed boards\<close>

text \<open>A board of size \<open>n\<close> has exactly \<open>n\<close> positions, each a column in \<open>[0, n)\<close>.\<close>

definition well_formed :: "nat \<Rightarrow> Queen \<Rightarrow> bool" where
  "well_formed n q \<longleftrightarrow> length (board q) = n \<and> list_all (\<lambda>c. c < n) (board q)"

subsection \<open>Invariants of the population\<close>

text \<open>The cached fitness of a board is up to date when it is the fitness of its positions.\<close>

definition up_to_date :: "Queen \<Rightarrow> bool" where
  "up_to_date q \<longleftrightarrow> valid_queens q = count_valid_queens (board q)"

text \<open>A population is sorted when the cached fitness never increases along the list.\<close>

definition sorted_by_fitness :: "Queen list \<Rightarrow> bool" where
  "sorted_by_fitness population \<longleftrightarrow> sorted_wrt (\<ge>) (map valid_queens population)"

text \<open>Every board of the population has \<open>n\<close> positions.\<close>

definition boards_of_size :: "nat \<Rightarrow> Queen list \<Rightarrow> bool" where
  "boards_of_size n population \<longleftrightarrow> list_all (\<lambda>q. length (board q) = n) population"

subsection \<open>The program\<close>

text \<open>
  The module runs top to bottom. What it needs from outside is gathered in an
  environment: the conversion \<open>int(s)\<close> of a command-line argument (\<open>None\<close> when Python
  raises ValueError), the clock \<open>int(time())\<close>, and the stream of the generator after
  \<open>random.seed(seed)\<close>. The output is the list of things printed: a message is a line,
  and the four parts of \<open>print_info\<close> are kept apart (how numbers and the board are
  laid out as text is not modelled). The handler of SIGINT is asynchronous and is not
  modelled.
\<close>

record env =
  to_int :: "string \<Rightarrow> int option"
  time_now :: int
  seeded :: "int \<Rightarrow> rng"

datatype out =
  Message string
  | Iteration nat
  | Random_seed int
  | Board_layout "nat list"
  | Valid_queens nat

text \<open>
  How the program ends: it runs to its last line, it calls \<open>quit()\<close>, or an exception
  is not caught.
\<close>

datatype ending = Finished | Quit | Uncaught error

record run =
  printed :: "out list"
  ending :: ending

definition usage_message :: string where
  "usage_message = ''Takes one or two argument(s): the board size and random seed.''"

definition size_message :: string where
  "size_message = ''Board size must be 4 or greater!''"

text \<open>
  The program up to the seeding of the generator: the check of the argument count, the
  conversion and the check of the board size, the seed. \<open>Inl\<close> is a run that ends there,
  before the population exists; \<open>Inr\<close> carries the board size and the seed on.
\<close>

definition validate :: "env \<Rightarrow> string list \<Rightarrow> run + (nat \<times> int)" where
  "validate e argv =
     (if length argv \<noteq> 2 \<and> length argv \<noteq> 3 then
        Inl \<lparr>printed = [Message usage_message], ending = Quit\<rparr>
      else
        (case to_int e (argv ! 1) of
           None \<Rightarrow> Inl \<lparr>printed = [], ending = Uncaught ValueError\<rparr>
         | Some n \<Rightarrow>
             (if n < 4 then Inl \<lparr>printed = [Message size_message], ending = Quit\<rparr>
              else if length argv = 3 then
                (case to_int e (argv ! 2) of
                   None \<Rightarrow> Inl \<lparr>printed = [], ending = Uncaught ValueError\<rparr>
                 | Some random_seed \<Rightarrow> Inr (nat n, random_seed))
              else Inr (nat n, time_now e))))"

text \<open>\<open>print_info\<close> reads \<open>population[0]\<close> after its first two lines.\<close>

definition print_info :: "nat \<Rightarrow> int \<Rightarrow> Queen list \<Rightarrow> run" where
  "print_info current_iteration random_seed population =
     (case population of
        [] \<Rightarrow>
          \<lparr>printed = [Iteration current_iteration, Random_seed random_seed],
           ending = Uncaught IndexError\<rparr>
      | q # _ \<Rightarrow>
          \<lparr>printed = [Iteration current_iteration, Random_seed random_seed,
                      Board_layout (board q), Valid_queens (valid_queens q)],
           ending = Finished\<rparr>)"

definition main :: "env \<Rightarrow> string list \<Rightarrow> run" where
  "main e argv =
     (case validate e argv of
        Inl r \<Rightarrow> r
      | Inr (n, random_seed) \<Rightarrow>
          (case evolve constants n (seeded e random_seed) of
             Inl err \<Rightarrow> \<lparr>printed = [], ending = Uncaught err\<rparr>
           | Inr (population, current_iteration, g) \<Rightarrow>
               print_info current_iteration random_seed population))"

text \<open>
  An environment for concrete runs. Its conversion reads plain decimal literals (an
  optional sign and digits), which \<open>int\<close> accepts, and rejects everything else; its
  generator is a fixed stream shifted by the seed.
\<close>

definition digit :: "char \<Rightarrow> nat option" where
  "digit c =
     (let v = (of_char c :: nat) in if 48 \<le> v \<and> v \<le> 57 then Some (v - 48) else None)"

fun digits :: "string \<Rightarrow> nat \<Rightarrow> nat option" where
  "digits [] acc = Some acc"
| "digits (c # cs) acc =
     (case digit c of None \<Rightarrow> None | Some d \<Rightarrow> digits cs (10 * acc + d))"

definition decimal_literal :: "string \<Rightarrow> int option" where
  "decimal_literal s =
     (case s of
        [] \<Rightarrow> None
      | c # cs \<Rightarrow>
          (if c = CHR ''-'' then
             (if cs = [] then None else map_option (\<lambda>v. - int v) (digits cs 0))
           else if c = CHR ''+'' then
             (if cs = [] then None else map_option int (digits cs 0))
           else map_option int (digits s 0)))"

definition example_env :: env where
  "example_env =
     \<lparr>to_int = decimal_literal, time_now = 1504886928,
      seeded = (\<lambda>seed i. nat \<bar>seed\<bar> + i)\<rparr>"

section \<open>Properties\<close>

subsection \<open>Basic facts about the operators\<close>

lemma randrange_Inr:
  "0 < n \<Longrightarrow> randrange n g = Inr (g 0 mod n, \<lambda>i. g (Suc i))"
  by (simp add: randrange_def)

lemma randrange_zero: "randrange 0 g = Inl ValueError"
  by (simp add: randrange_def)

lemma map_nth_upto: "length xs = N \<Longrightarrow> map ((!) xs) [0..<N] = xs"
  by (auto simp: map_nth)

lemma gene_loop_exact:
  assumes "\<forall>i\<in>set ixs. i < N"
    and "length (board b1) = N" and "length (board b2) = N"
    and "length (board c1) = N" and "length (board c2) = N"
  shows "gene_loop ixs b1 b2 c1 c2 =
           Inr (c1\<lparr>board := map (\<lambda>j. if j \<in> set ixs then board b2 ! j else board c1 ! j) [0..<N]\<rparr>,
                c2\<lparr>board := map (\<lambda>j. if j \<in> set ixs then board b1 ! j else board c2 ! j) [0..<N]\<rparr>)"
  using assms
proof (induction ixs arbitrary: c1 c2)
  case Nil
  then show ?case by (simp add: map_nth_upto)
next
  case (Cons i ixs)
  let ?c1 = "c1\<lparr>board := (board c1)[i := board b2 ! i]\<rparr>"
  let ?c2 = "c2\<lparr>board := (board c2)[i := board b1 ! i]\<rparr>"
  have i: "i < N" using Cons.prems(1) by simp
  have rest: "\<forall>k\<in>set ixs. k < N" using Cons.prems(1) by simp
  have len: "length (board ?c1) = N" "length (board ?c2) = N"
    using Cons.prems by simp_all
  have step: "gene_loop (i # ixs) b1 b2 c1 c2 = gene_loop ixs b1 b2 ?c1 ?c2"
    using i Cons.prems by simp
  have m1: "map (\<lambda>j. if j \<in> set ixs then board b2 ! j else board ?c1 ! j) [0..<N] =
            map (\<lambda>j. if j \<in> set (i # ixs) then board b2 ! j else board c1 ! j) [0..<N]"
    using Cons.prems(4) by (auto simp: nth_list_update)
  have m2: "map (\<lambda>j. if j \<in> set ixs then board b1 ! j else board ?c2 ! j) [0..<N] =
            map (\<lambda>j. if j \<in> set (i # ixs) then board b1 ! j else board c2 ! j) [0..<N]"
    using Cons.prems(5) by (auto simp: nth_list_update)
  show ?case
    unfolding step Cons.IH[OF rest Cons.prems(2) Cons.prems(3) len] m1[symmetric] m2[symmetric]
    by simp
qed

lemma splice_map:
  assumes "length xs = N" and "length ys = N" and "p \<le> N"
  shows "map (\<lambda>j. if p \<le> j \<and> j < N then ys ! j else xs ! j) [0..<N] = take p xs @ drop p ys"
  using assms by (intro nth_equalityI) (auto simp: nth_append)

lemma gene_loop_pivot:
  assumes "length (board b1) = N" and "length (board b2) = N" and "p \<le> N"
  shows "gene_loop [p..<N] b1 b2 (deepcopy b1) (deepcopy b2) =
           Inr (b1\<lparr>board := take p (board b1) @ drop p (board b2)\<rparr>,
                b2\<lparr>board := take p (board b2) @ drop p (board b1)\<rparr>)"
proof -
  have "\<forall>i\<in>set [p..<N]. i < N" by simp
  from gene_loop_exact[OF this assms(1) assms(2), of "deepcopy b1" "deepcopy b2"] assms
  show ?thesis
    by (simp add: deepcopy_def splice_map)
qed

lemma permutation_exact:
  assumes "0 < N" and "length (board b1) = N" and "length (board b2) = N"
  shows "permutation b1 b2 N g =
           Inr (update_valid_queens (b1\<lparr>board := take (g 0 mod N) (board b1) @ drop (g 0 mod N) (board b2)\<rparr>),
                update_valid_queens (b2\<lparr>board := take (g 0 mod N) (board b2) @ drop (g 0 mod N) (board b1)\<rparr>),
                \<lambda>i. g (Suc i))"
proof -
  have "g 0 mod N \<le> N" using assms(1) by (simp add: less_imp_le)
  from gene_loop_pivot[OF assms(2) assms(3) this] assms(1)
  show ?thesis by (simp add: permutation_def randrange_Inr)
qed

lemma board_update_valid_queens [simp]: "board (update_valid_queens q) = board q"
  by (simp add: update_valid_queens_def)

lemma valid_queens_update_valid_queens [simp]:
  "valid_queens (update_valid_queens q) = count_valid_queens (board q)"
  by (simp add: update_valid_queens_def)

lemma mutation_exact:
  assumes "0 < n"
  shows "mutation b n g =
           (if g 0 mod n < length (board b)
            then Inr (update_valid_queens (b\<lparr>board := (board b)[g 0 mod n := g 1 mod n]\<rparr>),
                      \<lambda>i. g (Suc (Suc i)))
            else Inl IndexError)"
  using assms by (simp add: mutation_def randrange_Inr)

lemma mutation_zero: "mutation b 0 g = Inl ValueError"
  by (simp add: mutation_def randrange_zero)

lemma permutation_zero: "permutation b1 b2 0 g = Inl ValueError"
  by (simp add: permutation_def randrange_zero)

subsection \<open>The mutation roll\<close>

lemma rolls_set:
  assumes "1 \<le> p" and "p \<le> 100" and "probability_of_mutation cfg = p"
  shows "{r. r < 100 \<and> roll_mutates cfg r} = {nat (101 - p)..<100}"
  using assms by (auto simp: roll_mutates_def)

lemma rolls_count:
  assumes "1 \<le> p" and "p \<le> 100" and "probability_of_mutation cfg = p"
  shows "int (card {r. r < 100 \<and> roll_mutates cfg r}) = p - 1"
  using assms by (simp add: rolls_set[OF assms])

lemma rolls_count_zero:
  assumes "probability_of_mutation cfg = 0"
  shows "card {r. r < 100 \<and> roll_mutates cfg r} = 0"
  using assms by (auto simp: roll_mutates_def)

text \<open>
  Claim C1. Every board of the population is mutated with probability
  \<open>probability_of_mutation / 100\<close>: of the 100 equally likely rolls, exactly
  \<open>probability_of_mutation\<close> should trigger the mutation. The test of the program is
  \<open>random_number > 100 - probability_of_mutation\<close>, which \<open>probability_of_mutation - 1\<close>
  rolls pass (lemma \<open>rolls_count\<close>). With the constant of the program, 50, only the 49
  rolls from 51 to 99 trigger the mutation, and the roll 50 does not.
\<close>

theorem mutation_roll_off_by_one:
  "card {r. r < 100 \<and> roll_mutates constants r} = 49 \<and>
   \<not> roll_mutates constants 50 \<and> roll_mutates constants 51"
proof -
  have "{r. r < 100 \<and> roll_mutates constants r} = {nat (101 - 50)..<100}"
    by (rule rolls_set) (simp_all add: constants_def)
  then show ?thesis by (simp add: roll_mutates_def constants_def)
qed

subsection \<open>Recombination\<close>

text \<open>
  Claim C2. For parents \<open>A\<close> and \<open>B\<close> of size \<open>N\<close>, \<open>permutation\<close> draws a pivot
  \<open>p = g 0 mod N\<close> in \<open>[0, N)\<close> and returns a first child that has the positions of
  \<open>A\<close> below \<open>p\<close> and those of \<open>B\<close> from \<open>p\<close> on, and a second child that is the
  complement. The same holds of the copy loop for every pivot \<open>p \<le> N\<close>: with \<open>p = 0\<close>
  the first child has the positions of \<open>B\<close> and the second those of \<open>A\<close>, with
  \<open>p = N\<close> (a pivot that \<open>randrange\<close> never draws) the loop body does not run and the
  children have the positions of their own parents.
\<close>

theorem permutation_single_point:
  assumes "length (board A) = N" and "length (board B) = N"
  shows "(0 < N \<longrightarrow>
            (\<exists>child_1 child_2 g'.
               permutation A B N g = Inr (child_1, child_2, g') \<and> g 0 mod N < N \<and>
               board child_1 = take (g 0 mod N) (board A) @ drop (g 0 mod N) (board B) \<and>
               board child_2 = take (g 0 mod N) (board B) @ drop (g 0 mod N) (board A) \<and>
               (\<forall>i<N. board child_1 ! i = (if i < g 0 mod N then board A ! i else board B ! i)) \<and>
               (\<forall>i<N. board child_2 ! i = (if i < g 0 mod N then board B ! i else board A ! i)) \<and>
               (g 0 mod N = 0 \<longrightarrow> board child_1 = board B \<and> board child_2 = board A))) \<and>
         (\<forall>p\<le>N. \<exists>child_1 child_2.
            gene_loop [p..<N] A B (deepcopy A) (deepcopy B) = Inr (child_1, child_2) \<and>
            (\<forall>i<N. board child_1 ! i = (if i < p then board A ! i else board B ! i)) \<and>
            (\<forall>i<N. board child_2 ! i = (if i < p then board B ! i else board A ! i)) \<and>
            (p = 0 \<longrightarrow> board child_1 = board B \<and> board child_2 = board A) \<and>
            (p = N \<longrightarrow> board child_1 = board A \<and> board child_2 = board B))"
proof (intro conjI impI allI)
  assume N: "0 < N"
  let ?p = "g 0 mod N"
  have p: "?p < N" using N by simp
  have nth1: "\<forall>i<N. (take ?p (board A) @ drop ?p (board B)) ! i =
      (if i < ?p then board A ! i else board B ! i)"
    using assms p by (auto simp: nth_append)
  have nth2: "\<forall>i<N. (take ?p (board B) @ drop ?p (board A)) ! i =
      (if i < ?p then board B ! i else board A ! i)"
    using assms p by (auto simp: nth_append)
  show "\<exists>child_1 child_2 g'.
               permutation A B N g = Inr (child_1, child_2, g') \<and> g 0 mod N < N \<and>
               board child_1 = take (g 0 mod N) (board A) @ drop (g 0 mod N) (board B) \<and>
               board child_2 = take (g 0 mod N) (board B) @ drop (g 0 mod N) (board A) \<and>
               (\<forall>i<N. board child_1 ! i = (if i < g 0 mod N then board A ! i else board B ! i)) \<and>
               (\<forall>i<N. board child_2 ! i = (if i < g 0 mod N then board B ! i else board A ! i)) \<and>
               (g 0 mod N = 0 \<longrightarrow> board child_1 = board B \<and> board child_2 = board A)"
    unfolding permutation_exact[OF N assms]
    using p nth1 nth2 by simp
next
  fix p assume p: "p \<le> N"
  have nth1: "\<forall>i<N. (take p (board A) @ drop p (board B)) ! i =
      (if i < p then board A ! i else board B ! i)"
    using assms p by (auto simp: nth_append)
  have nth2: "\<forall>i<N. (take p (board B) @ drop p (board A)) ! i =
      (if i < p then board B ! i else board A ! i)"
    using assms p by (auto simp: nth_append)
  show "\<exists>child_1 child_2.
            gene_loop [p..<N] A B (deepcopy A) (deepcopy B) = Inr (child_1, child_2) \<and>
            (\<forall>i<N. board child_1 ! i = (if i < p then board A ! i else board B ! i)) \<and>
            (\<forall>i<N. board child_2 ! i = (if i < p then board B ! i else board A ! i)) \<and>
            (p = 0 \<longrightarrow> board child_1 = board B \<and> board child_2 = board A) \<and>
            (p = N \<longrightarrow> board child_1 = board A \<and> board child_2 = board B)"
    unfolding gene_loop_pivot[OF assms p]
    using nth1 nth2 assms by simp
qed

theorem permutation_single_point_witness:
  "\<exists>child_1 child_2 g'.
     permutation \<lparr>board = [0, 1, 2, 3], valid_queens = 0\<rparr> \<lparr>board = [3, 2, 1, 0], valid_queens = 0\<rparr> 4
       (\<lambda>i. 2) = Inr (child_1, child_2, g') \<and>
     board child_1 = [0, 1, 1, 0] \<and> board child_2 = [3, 2, 2, 3]"
proof -
  let ?A = "\<lparr>board = [0, 1, 2, 3], valid_queens = 0\<rparr>"
  let ?B = "\<lparr>board = [3, 2, 1, 0], valid_queens = 0\<rparr>"
  have len: "length (board ?A) = 4" "length (board ?B) = 4" by simp_all
  have "\<exists>child_1 child_2 g'.
          permutation ?A ?B 4 (\<lambda>i. 2) = Inr (child_1, child_2, g') \<and>
          board child_1 = take 2 (board ?A) @ drop 2 (board ?B) \<and>
          board child_2 = take 2 (board ?B) @ drop 2 (board ?A)"
    using permutation_single_point[OF len, of "\<lambda>i. 2"] by auto
  then show ?thesis by simp
qed

subsection \<open>Mutation\<close>

text \<open>
  Claim C6. A mutation changes at most one position of a board. The row is
  \<open>g 0 mod n\<close> and the new column \<open>g 1 mod n\<close>; the number of positions is unchanged,
  every other position keeps its value, and when the new column is the old one the
  positions are unchanged altogether. The mutation raises only when \<open>n = 0\<close> or when
  the row lies outside the board.
\<close>

theorem mutation_locality:
  "case mutation b n g of
     Inl e \<Rightarrow> n = 0 \<or> length (board b) \<le> g 0 mod n
   | Inr (b', g') \<Rightarrow>
       0 < n \<and> g 0 mod n < length (board b) \<and>
       length (board b') = length (board b) \<and>
       (\<forall>i. i \<noteq> g 0 mod n \<longrightarrow> board b' ! i = board b ! i) \<and>
       board b' ! (g 0 mod n) = g 1 mod n \<and>
       (board b ! (g 0 mod n) = g 1 mod n \<longrightarrow> board b' = board b)"
proof (cases "n = 0")
  case True
  then show ?thesis by (simp add: mutation_zero)
next
  case False
  then have n: "0 < n" by simp
  show ?thesis
    unfolding mutation_exact[OF n] using n by (simp add: list_update_same_conv)
qed

theorem mutation_locality_witness:
  "\<exists>g'. mutation \<lparr>board = [1, 3, 0, 2], valid_queens = 4\<rparr> 4 (\<lambda>i. if i = 0 then 2 else 4) =
     Inr (\<lparr>board = [1, 3, 0, 2], valid_queens = 4\<rparr>, g')"
  using mutation_locality
    [where b = "\<lparr>board = [1, 3, 0, 2], valid_queens = 4\<rparr>" and n = 4
       and g = "\<lambda>i. if i = 0 then 2 else 4"]
  by (simp add: mutation_exact update_valid_queens_def count_valid_queens_def valid_queen_def
      attacks_def upt_conv_Cons)

subsection \<open>Well-formed boards\<close>

lemma well_formed_update_valid_queens [simp]:
  "well_formed n (update_valid_queens q) = well_formed n q"
  by (simp add: well_formed_def)

lemma well_formed_splice:
  assumes "well_formed n a" and "well_formed n b"
  shows "well_formed n (a\<lparr>board := take p (board a) @ drop p (board b)\<rparr>)"
proof -
  have "set (take p (board a)) \<subseteq> set (board a)" "set (drop p (board b)) \<subseteq> set (board b)"
    by (simp_all add: set_take_subset set_drop_subset)
  then show ?thesis
    using assms by (auto simp: well_formed_def list_all_iff)
qed

lemma well_formed_write:
  assumes "well_formed n b" and "c < n"
  shows "well_formed n (b\<lparr>board := (board b)[i := c]\<rparr>)"
  using assms set_update_subset_insert[of "board b" i c]
  by (auto simp: well_formed_def list_all_iff)

text \<open>
  Claim C7. Recombination and mutation keep boards well formed: from boards with
  exactly \<open>n\<close> positions, each in \<open>[0, n)\<close>, both children of \<open>permutation\<close> and the
  board that \<open>mutation\<close> returns have exactly \<open>n\<close> positions, each in \<open>[0, n)\<close>.
  Neither operator raises on such boards unless \<open>n = 0\<close>.
\<close>

theorem operators_keep_well_formed:
  assumes "well_formed n board_1" and "well_formed n board_2"
  shows "(case permutation board_1 board_2 n g of
            Inl e \<Rightarrow> n = 0
          | Inr (child_1, child_2, g') \<Rightarrow> well_formed n child_1 \<and> well_formed n child_2) \<and>
         (case mutation board_1 n g of
            Inl e \<Rightarrow> n = 0
          | Inr (b', g') \<Rightarrow> well_formed n b')"
proof (cases "n = 0")
  case True
  then show ?thesis by (simp add: mutation_zero permutation_zero)
next
  case False
  then have n: "0 < n" by simp
  have len: "length (board board_1) = n" "length (board board_2) = n"
    using assms by (simp_all add: well_formed_def)
  have "g 0 mod n < length (board board_1)" "g 1 mod n < n"
    using n len by simp_all
  then show ?thesis
    unfolding permutation_exact[OF n len] mutation_exact[OF n]
    using assms by (simp add: well_formed_splice well_formed_write)
qed

theorem operators_keep_well_formed_witness:
  "well_formed 4 \<lparr>board = [1, 3, 0, 2], valid_queens = 4\<rparr> \<and>
   well_formed 4 \<lparr>board = [0, 0, 3, 3], valid_queens = 0\<rparr> \<and>
   (\<exists>child_1 child_2 g'.
      permutation \<lparr>board = [1, 3, 0, 2], valid_queens = 4\<rparr>
        \<lparr>board = [0, 0, 3, 3], valid_queens = 0\<rparr> 4 (\<lambda>i. i + 1) = Inr (child_1, child_2, g') \<and>
      well_formed 4 child_1 \<and> well_formed 4 child_2) \<and>
   (\<exists>b' g'. mutation \<lparr>board = [1, 3, 0, 2], valid_queens = 4\<rparr> 4 (\<lambda>i. i + 1) = Inr (b', g') \<and>
      well_formed 4 b')"
proof -
  have wf: "well_formed 4 \<lparr>board = [1, 3, 0, 2], valid_queens = 4\<rparr>"
    "well_formed 4 \<lparr>board = [0, 0, 3, 3], valid_queens = 0\<rparr>"
    by (simp_all add: well_formed_def)
  from operators_keep_well_formed[OF wf, where g = "\<lambda>i. i + 1"] wf
  show ?thesis
    by (auto split: sum.splits)
qed

subsection \<open>Fitness\<close>

lemma length_filter_all:
  "length (filter P xs) = length xs \<longleftrightarrow> (\<forall>x\<in>set xs. P x)"
proof -
  have "length (filter P xs) + length (filter (\<lambda>x. \<not> P x) xs) = length xs"
    by (rule sum_length_filter_compl)
  then have "length (filter P xs) = length xs \<longleftrightarrow> filter (\<lambda>x. \<not> P x) xs = []"
    by auto
  then show ?thesis by (simp add: filter_empty_conv)
qed

lemma count_valid_queens_le: "count_valid_queens ps \<le> length ps"
proof -
  have "length (filter (valid_queen ps) [0..<length ps]) \<le> length [0..<length ps]"
    by (rule length_filter_le)
  then show ?thesis by (simp add: count_valid_queens_def)
qed

lemma count_valid_queens_full:
  "count_valid_queens ps = length ps \<longleftrightarrow> (\<forall>r<length ps. valid_queen ps r)"
  using length_filter_all[of "valid_queen ps" "[0..<length ps]"]
  by (auto simp: count_valid_queens_def)

lemma valid_queen_iff:
  "valid_queen ps r \<longleftrightarrow>
     (\<forall>r2<length ps. r2 \<noteq> r \<longrightarrow> \<not> attacks r (ps ! r) r2 (ps ! r2))"
  by (auto simp: valid_queen_def list_all_iff)

lemma count_valid_queens_example: "count_valid_queens [1, 3, 0, 2] = 4"
  by (simp add: count_valid_queens_def valid_queen_def attacks_def upt_conv_Cons)

text \<open>
  Claim C8. The fitness of a board of size \<open>N\<close>, as \<open>update_valid_queens\<close> computes it,
  lies between 0 and \<open>N\<close>, and it is \<open>N\<close> iff no two queens of different rows share a
  column or a diagonal.
\<close>

theorem fitness_bounds:
  "0 \<le> valid_queens (update_valid_queens q) \<and>
   valid_queens (update_valid_queens q) \<le> length (board q) \<and>
   (valid_queens (update_valid_queens q) = length (board q) \<longleftrightarrow>
      (\<forall>r1<length (board q). \<forall>r2<length (board q). r1 \<noteq> r2 \<longrightarrow>
         \<not> (board q ! r1 = board q ! r2 \<or>
            \<bar>int r1 - int r2\<bar> = \<bar>int (board q ! r1) - int (board q ! r2)\<bar>)))"
proof -
  have "count_valid_queens (board q) = length (board q) \<longleftrightarrow>
      (\<forall>r1<length (board q). \<forall>r2<length (board q). r1 \<noteq> r2 \<longrightarrow>
         \<not> attacks r1 (board q ! r1) r2 (board q ! r2))"
    unfolding count_valid_queens_full valid_queen_iff by blast
  then show ?thesis
    using count_valid_queens_le[of "board q"] by (simp add: attacks_def)
qed

theorem fitness_bounds_witness:
  "valid_queens (update_valid_queens \<lparr>board = [1, 3, 0, 2], valid_queens = 0\<rparr>) = 4 \<and>
   valid_queens (update_valid_queens \<lparr>board = [0, 1, 3, 1], valid_queens = 0\<rparr>) < 4"
proof -
  let ?q = "\<lparr>board = [0, 1, 3, 1], valid_queens = 0\<rparr>"
  have "\<not> (\<forall>r1<length (board ?q). \<forall>r2<length (board ?q). r1 \<noteq> r2 \<longrightarrow>
         \<not> (board ?q ! r1 = board ?q ! r2 \<or>
            \<bar>int r1 - int r2\<bar> = \<bar>int (board ?q ! r1) - int (board ?q ! r2)\<bar>))"
  proof
    assume "\<forall>r1<length (board ?q). \<forall>r2<length (board ?q). r1 \<noteq> r2 \<longrightarrow>
         \<not> (board ?q ! r1 = board ?q ! r2 \<or>
            \<bar>int r1 - int r2\<bar> = \<bar>int (board ?q ! r1) - int (board ?q ! r2)\<bar>)"
    from this[rule_format, of 1 3] show False by simp
  qed
  with fitness_bounds[of ?q]
  have "valid_queens (update_valid_queens ?q) \<le> length (board ?q)"
    and "valid_queens (update_valid_queens ?q) \<noteq> length (board ?q)"
    by blast+
  then have "valid_queens (update_valid_queens ?q) < 4" by simp
  moreover have "valid_queens (update_valid_queens \<lparr>board = [1, 3, 0, 2], valid_queens = 0\<rparr>) = 4"
    using count_valid_queens_example by simp
  ultimately show ?thesis by simp
qed

subsection \<open>The sort\<close>

lemma mset_sort_population [simp]: "mset (sort_population population) = mset population"
  by (simp add: sort_population_def)

lemma set_sort_population [simp]: "set (sort_population population) = set population"
  by (simp add: sort_population_def)

lemma length_sort_population [simp]: "length (sort_population population) = length population"
  by (simp add: sort_population_def)

lemma sorted_sort_population: "sorted_by_fitness (sort_population population)"
proof -
  have "sorted (map valid_queens (sort_key valid_queens (rev population)))"
    by (rule sorted_sort_key)
  then have "sorted_wrt (\<lambda>x y. y \<le> x) (rev (map valid_queens (sort_key valid_queens (rev population))))"
    by (simp add: sorted_wrt_rev)
  then show ?thesis
    by (simp add: sorted_by_fitness_def sort_population_def rev_map)
qed

lemma sorted_by_fitness_take: "sorted_by_fitness xs \<Longrightarrow> sorted_by_fitness (take k xs)"
  by (simp add: sorted_by_fitness_def take_map[symmetric] sorted_wrt_take)

lemma sorted_by_fitness_nth:
  assumes "sorted_by_fitness xs" and "i \<le> j" and "j < length xs"
  shows "valid_queens (xs ! j) \<le> valid_queens (xs ! i)"
proof (cases "i = j")
  case True
  then show ?thesis by simp
next
  case False
  with assms have "i < j" by simp
  with assms show ?thesis
    by (auto simp: sorted_by_fitness_def sorted_wrt_iff_nth_less)
qed

subsection \<open>The cached fitness\<close>

lemma up_to_date_update_valid_queens [simp]: "up_to_date (update_valid_queens q)"
  by (simp add: up_to_date_def)

lemma permutation_up_to_date:
  "permutation b1 b2 n g = Inr (c1, c2, g') \<Longrightarrow> up_to_date c1 \<and> up_to_date c2"
  by (auto simp: permutation_def split: sum.splits prod.splits)

lemma mutation_up_to_date: "mutation b n g = Inr (b', g') \<Longrightarrow> up_to_date b'"
  by (auto simp: mutation_def split: sum.splits prod.splits if_splits)

lemma mutation_length:
  "mutation b n g = Inr (b', g') \<Longrightarrow> length (board b') = length (board b)"
  by (auto simp: mutation_def split: sum.splits prod.splits if_splits)

lemma mutation_total:
  "0 < n \<Longrightarrow> length (board b) = n \<Longrightarrow> \<exists>b' g'. mutation b n g = Inr (b', g')"
  by (simp add: mutation_exact)

subsection \<open>The mutation pass\<close>

lemma mutation_pass_rel:
  "mutation_pass cfg n bs g = Inr (bs', g') \<Longrightarrow>
     list_all2 (\<lambda>b b'. b' = b \<or> (\<exists>h h'. mutation b n h = Inr (b', h'))) bs bs'"
proof (induction bs arbitrary: g bs')
  case Nil
  then show ?case by simp
next
  case (Cons b bs)
  from Cons.prems show ?case
    by (auto simp: randrange_def split: sum.splits prod.splits if_splits dest: Cons.IH)
qed

lemma mutation_pass_length:
  "mutation_pass cfg n bs g = Inr (bs', g') \<Longrightarrow> length bs' = length bs"
  by (drule mutation_pass_rel) (simp add: list_all2_lengthD)

lemma mutation_pass_preserves:
  assumes "mutation_pass cfg n bs g = Inr (bs', g')"
    and "\<forall>b\<in>set bs. P b"
    and "\<And>b h b' h'. P b \<Longrightarrow> mutation b n h = Inr (b', h') \<Longrightarrow> P b'"
  shows "\<forall>b\<in>set bs'. P b"
proof -
  from assms(1) have rel: "list_all2 (\<lambda>b b'. b' = b \<or> (\<exists>h h'. mutation b n h = Inr (b', h'))) bs bs'"
    by (rule mutation_pass_rel)
  show ?thesis
  proof
    fix b' assume "b' \<in> set bs'"
    then obtain i where i: "i < length bs'" "bs' ! i = b'"
      by (auto simp: in_set_conv_nth)
    with rel have "i < length bs" by (simp add: list_all2_lengthD)
    with rel i have "b' = bs ! i \<or> (\<exists>h h'. mutation (bs ! i) n h = Inr (b', h'))"
      by (auto dest: list_all2_nthD)
    moreover have "P (bs ! i)" using assms(2) \<open>i < length bs\<close> by simp
    ultimately show "P b'" using assms(3) by blast
  qed
qed

lemma mutation_pass_total:
  assumes "0 < n" and "\<forall>b\<in>set bs. length (board b) = n"
  shows "\<exists>bs' g'. mutation_pass cfg n bs g = Inr (bs', g')"
  using assms(2)
proof (induction bs arbitrary: g)
  case Nil
  then show ?case by simp
next
  case (Cons b bs)
  let ?g1 = "\<lambda>i. g (Suc i)"
  have r: "randrange 100 g = Inr (g 0 mod 100, ?g1)" by (simp add: randrange_def)
  show ?case
  proof (cases "roll_mutates cfg (g 0 mod 100)")
    case True
    from Cons.prems have "length (board b) = n" by simp
    from mutation_total[OF assms(1) this] obtain b' g2 where m: "mutation b n ?g1 = Inr (b', g2)"
      by blast
    from Cons.IH[of g2] Cons.prems obtain bs' g3 where "mutation_pass cfg n bs g2 = Inr (bs', g3)"
      by auto
    with r True m show ?thesis by simp
  next
    case False
    from Cons.IH[of ?g1] Cons.prems obtain bs' g3 where "mutation_pass cfg n bs ?g1 = Inr (bs', g3)"
      by auto
    with r False show ?thesis by simp
  qed
qed

lemma mutation_pass_append:
  "mutation_pass cfg n (xs @ ys) g =
     (case mutation_pass cfg n xs g of
        Inl e \<Rightarrow> Inl e
      | Inr (xs', g1) \<Rightarrow>
          (case mutation_pass cfg n ys g1 of
             Inl e \<Rightarrow> Inl e
           | Inr (ys', g2) \<Rightarrow> Inr (xs' @ ys', g2)))"
  by (induction xs arbitrary: g) (auto split: sum.splits prod.splits)

subsection \<open>The body of the loop\<close>

lemma boards_of_size_iff: "boards_of_size n population \<longleftrightarrow> (\<forall>q\<in>set population. length (board q) = n)"
  by (simp add: boards_of_size_def list_all_iff)

lemma boards_of_size_nth:
  "boards_of_size n population \<Longrightarrow> i < length population \<Longrightarrow> length (board (population ! i)) = n"
  by (simp add: boards_of_size_iff)

lemma permutation_length:
  assumes "0 < n" and "length (board b1) = n" and "length (board b2) = n"
    and "permutation b1 b2 n g = Inr (c1, c2, g')"
  shows "length (board c1) = n \<and> length (board c2) = n"
  using assms(4) assms(1-3) unfolding permutation_exact[OF assms(1-3)] by auto

lemma grow_Inr:
  assumes "grow cfg n population g = Inr (grown, g')"
  shows "\<exists>child_1 child_2 g1 mutated.
           2 \<le> length population \<and>
           permutation (population ! 0) (population ! 1) n g = Inr (child_1, child_2, g1) \<and>
           mutation_pass cfg n (population @ [child_1, child_2]) g1 = Inr (mutated, g') \<and>
           grown = sort_population mutated"
  using assms by (auto simp: grow_def split: if_splits sum.splits prod.splits)

lemma grow_length:
  assumes "grow cfg n population g = Inr (grown, g')"
  shows "length grown = length population + 2"
proof -
  from grow_Inr[OF assms] obtain child_1 child_2 g1 mutated where
    m: "mutation_pass cfg n (population @ [child_1, child_2]) g1 = Inr (mutated, g')"
    and s: "grown = sort_population mutated" by blast
  from mutation_pass_length[OF m] s show ?thesis by simp
qed

lemma grow_sorted:
  "grow cfg n population g = Inr (grown, g') \<Longrightarrow> sorted_by_fitness grown"
  by (auto dest!: grow_Inr simp: sorted_sort_population)

lemma grow_up_to_date:
  assumes "grow cfg n population g = Inr (grown, g')" and "\<forall>q\<in>set population. up_to_date q"
  shows "\<forall>q\<in>set grown. up_to_date q"
proof -
  from grow_Inr[OF assms(1)] obtain child_1 child_2 g1 mutated where
    p: "permutation (population ! 0) (population ! 1) n g = Inr (child_1, child_2, g1)"
    and m: "mutation_pass cfg n (population @ [child_1, child_2]) g1 = Inr (mutated, g')"
    and s: "grown = sort_population mutated" by blast
  from permutation_up_to_date[OF p] assms(2)
  have "\<forall>q\<in>set (population @ [child_1, child_2]). up_to_date q" by auto
  from mutation_pass_preserves[OF m this] have "\<forall>q\<in>set mutated. up_to_date q"
    by (blast intro: mutation_up_to_date)
  with s show ?thesis by simp
qed

lemma grow_boards_of_size:
  assumes "grow cfg n population g = Inr (grown, g')" and "0 < n"
    and "boards_of_size n population"
  shows "boards_of_size n grown"
proof -
  from grow_Inr[OF assms(1)] obtain child_1 child_2 g1 mutated where
    l: "2 \<le> length population"
    and p: "permutation (population ! 0) (population ! 1) n g = Inr (child_1, child_2, g1)"
    and m: "mutation_pass cfg n (population @ [child_1, child_2]) g1 = Inr (mutated, g')"
    and s: "grown = sort_population mutated" by blast
  from l assms(3) have "length (board (population ! 0)) = n" "length (board (population ! 1)) = n"
    by (auto intro!: boards_of_size_nth)
  from permutation_length[OF assms(2) this p] assms(3)
  have "\<forall>q\<in>set (population @ [child_1, child_2]). length (board q) = n"
    by (auto simp: boards_of_size_iff)
  from mutation_pass_preserves[OF m this] have "\<forall>q\<in>set mutated. length (board q) = n"
    by (simp add: mutation_length)
  with s show ?thesis by (simp add: boards_of_size_iff)
qed

lemma grow_total:
  assumes "0 < n" and "2 \<le> length population" and "boards_of_size n population"
  shows "\<exists>grown g'. grow cfg n population g = Inr (grown, g')"
proof -
  from assms have len: "length (board (population ! 0)) = n" "length (board (population ! 1)) = n"
    by (auto intro!: boards_of_size_nth)
  obtain child_1 child_2 g1 where
    p: "permutation (population ! 0) (population ! 1) n g = Inr (child_1, child_2, g1)"
    using permutation_exact[OF assms(1) len] by blast
  from permutation_length[OF assms(1) len p] assms(3)
  have "\<forall>q\<in>set (population @ [child_1, child_2]). length (board q) = n"
    by (auto simp: boards_of_size_iff)
  from mutation_pass_total[OF assms(1) this] obtain mutated g2 where
    "mutation_pass cfg n (population @ [child_1, child_2]) g1 = Inr (mutated, g2)" by blast
  with p assms(2) show ?thesis by (simp add: grow_def)
qed

lemma iteration_Inr:
  "iteration cfg n population g = Inr (population', g') \<longleftrightarrow>
     (\<exists>grown. grow cfg n population g = Inr (grown, g') \<and>
        population' = take (population_size cfg) grown)"
  by (auto simp: iteration_def split: sum.splits prod.splits)

lemma boards_of_size_take: "boards_of_size n xs \<Longrightarrow> boards_of_size n (take k xs)"
  by (auto simp: boards_of_size_iff dest: in_set_takeD)

text \<open>
  Claim C3. After every completed iteration of the loop (the two children appended,
  the mutation pass, the sort, the slice) the population has exactly \<open>population_size\<close>
  boards again and is sorted in descending order of fitness; before the slice, the sorted
  list has \<open>population_size + 2\<close> boards. The cached fitness of every board stays up to
  date.
\<close>

theorem population_invariant:
  assumes "length population = population_size cfg"
    and "iteration cfg n population g = Inr (population', g')"
  shows "length population' = population_size cfg \<and> sorted_by_fitness population' \<and>
         (\<exists>grown. grow cfg n population g = Inr (grown, g') \<and>
            length grown = population_size cfg + 2 \<and> sorted_by_fitness grown \<and>
            population' = take (population_size cfg) grown) \<and>
         ((\<forall>q\<in>set population. up_to_date q) \<longrightarrow> (\<forall>q\<in>set population'. up_to_date q))"
proof -
  from assms(2) obtain grown where g: "grow cfg n population g = Inr (grown, g')"
    and t: "population' = take (population_size cfg) grown"
    by (auto simp: iteration_Inr)
  have len: "length grown = population_size cfg + 2"
    using grow_length[OF g] assms(1) by simp
  have srt: "sorted_by_fitness grown" by (rule grow_sorted[OF g])
  have "length population' = population_size cfg" using len t by simp
  moreover have "sorted_by_fitness population'"
    using srt t by (simp add: sorted_by_fitness_take)
  moreover have "(\<forall>q\<in>set population. up_to_date q) \<longrightarrow> (\<forall>q\<in>set population'. up_to_date q)"
    using grow_up_to_date[OF g] t by (auto dest: in_set_takeD)
  ultimately show ?thesis using g len srt t by blast
qed

lemma iteration_total:
  assumes "0 < n" and "2 \<le> population_size cfg" and "length population = population_size cfg"
    and "boards_of_size n population"
  shows "\<exists>population' g'. iteration cfg n population g = Inr (population', g') \<and>
           length population' = population_size cfg \<and> boards_of_size n population' \<and>
           sorted_by_fitness population'"
proof -
  from assms have "2 \<le> length population" by simp
  from grow_total[OF assms(1) this assms(4)] obtain grown g' where
    g: "grow cfg n population g = Inr (grown, g')" by blast
  have "length grown = population_size cfg + 2" using grow_length[OF g] assms(3) by simp
  moreover have "boards_of_size n grown" by (rule grow_boards_of_size[OF g assms(1) assms(4)])
  moreover have "sorted_by_fitness grown" by (rule grow_sorted[OF g])
  ultimately show ?thesis
    using g by (simp add: iteration_def boards_of_size_take sorted_by_fitness_take)
qed

subsection \<open>Termination of the loop\<close>

lemma while_loop_exits:
  assumes "0 < n" and "2 \<le> population_size cfg"
  shows "length population = population_size cfg \<Longrightarrow> boards_of_size n population \<Longrightarrow>
         current_iteration \<le> max_iterations cfg \<Longrightarrow>
         \<exists>population' it g'.
           while_loop cfg n population current_iteration g = Inr (population', it, g') \<and>
           current_iteration \<le> it \<and> it \<le> max_iterations cfg \<and>
           length population' = population_size cfg \<and> boards_of_size n population' \<and>
           (valid_queens (population' ! 0) = n \<or> it = max_iterations cfg)"
  using assms
proof (induction cfg n population current_iteration g rule: while_loop.induct)
  case (1 cfg n population current_iteration g)
  have ne: "population \<noteq> []" using "1.prems" by auto
  show ?case
  proof (cases "valid_queens (population ! 0) \<noteq> n \<and> current_iteration < max_iterations cfg")
    case True
    from iteration_total[OF "1.prems"(4) "1.prems"(5) "1.prems"(1) "1.prems"(2), of g]
    obtain population' g' where
      it: "iteration cfg n population g = Inr (population', g')"
      and l: "length population' = population_size cfg"
      and b: "boards_of_size n population'" by blast
    have "current_iteration + 1 \<le> max_iterations cfg" using True by simp
    from "1.IH"[OF ne True it refl l b this "1.prems"(4) "1.prems"(5)]
    obtain population'' it' g'' where
      "while_loop cfg n population' (current_iteration + 1) g' = Inr (population'', it', g'')"
      "current_iteration + 1 \<le> it'" "it' \<le> max_iterations cfg"
      "length population'' = population_size cfg" "boards_of_size n population''"
      "valid_queens (population'' ! 0) = n \<or> it' = max_iterations cfg"
      by blast
    then show ?thesis
      using ne True it by (subst while_loop.simps) auto
  next
    case False
    then show ?thesis
      using ne "1.prems" by (subst while_loop.simps) auto
  qed
qed

lemma random_board_total:
  "0 < n \<Longrightarrow> \<exists>cs g'. random_board k n g = Inr (cs, g') \<and> length cs = k \<and> (\<forall>c\<in>set cs. c < n)"
proof (induction k arbitrary: g)
  case 0
  then show ?case by simp
next
  case (Suc k)
  from Suc.IH[OF Suc.prems, of "\<lambda>i. g (Suc i)"] obtain cs g' where
    "random_board k n (\<lambda>i. g (Suc i)) = Inr (cs, g')" "length cs = k" "\<forall>c\<in>set cs. c < n"
    by blast
  then show ?case using Suc.prems by (simp add: randrange_def)
qed

lemma Queen_init_total:
  assumes "0 < n"
  shows "\<exists>q g'. Queen_init n g = Inr (q, g') \<and> well_formed n q \<and> up_to_date q"
proof -
  from random_board_total[OF assms, of n g] obtain cs g' where
    "random_board n n g = Inr (cs, g')" "length cs = n" "\<forall>c\<in>set cs. c < n" by blast
  then show ?thesis
    by (simp add: Queen_init_def well_formed_def list_all_iff)
qed

lemma init_population_total:
  assumes "0 < n"
  shows "\<exists>qs g'. init_population k n g = Inr (qs, g') \<and> length qs = k \<and>
           (\<forall>q\<in>set qs. well_formed n q \<and> up_to_date q)"
proof (induction k arbitrary: g)
  case 0
  then show ?case by simp
next
  case (Suc k)
  from Queen_init_total[OF assms, of g] obtain q g1 where
    q: "Queen_init n g = Inr (q, g1)" "well_formed n q" "up_to_date q" by blast
  from Suc.IH[of g1] obtain qs g2 where
    "init_population k n g1 = Inr (qs, g2)" "length qs = k"
    "\<forall>q\<in>set qs. well_formed n q \<and> up_to_date q" by blast
  with q show ?case by simp
qed

text \<open>
  Claim C4. The loop always exits: for every board size \<open>n \<ge> 4\<close> and every random
  stream, the run from the initial population returns, after at most \<open>max_iterations\<close>
  iterations, and on exit the best board has \<open>n\<close> valid queens or the iteration count
  is \<open>max_iterations\<close>. The population size must be at least 2 (it is 10 in the
  program), since the loop reads \<open>population[1]\<close>.
\<close>

theorem loop_terminates:
  assumes "4 \<le> n" and "2 \<le> population_size cfg"
  shows "\<exists>population it g'.
           evolve cfg n g = Inr (population, it, g') \<and> it \<le> max_iterations cfg \<and>
           length population = population_size cfg \<and>
           (valid_queens (population ! 0) = n \<or> it = max_iterations cfg)"
proof -
  have n: "0 < n" using assms(1) by simp
  from init_population_total[OF n, of "population_size cfg" g] obtain qs g1 where
    i: "init_population (population_size cfg) n g = Inr (qs, g1)"
    and l: "length qs = population_size cfg"
    and w: "\<forall>q\<in>set qs. well_formed n q \<and> up_to_date q" by blast
  have b: "boards_of_size n (sort_population qs)"
    using w by (simp add: boards_of_size_iff well_formed_def)
  have l': "length (sort_population qs) = population_size cfg" using l by simp
  from while_loop_exits[OF n assms(2) l' b, of 0 g1] i
  show ?thesis by (auto simp: evolve_def)
qed

subsection \<open>Selection\<close>

lemma mutation_pass_head:
  "mutation_pass cfg n (b # bs) g = Inr (bs', g') \<Longrightarrow>
     (if roll_mutates cfg (g 0 mod 100)
      then \<exists>h. mutation b n (\<lambda>i. g (Suc i)) = Inr (bs' ! 0, h)
      else bs' ! 0 = b)"
  by (auto simp: randrange_def split: sum.splits prod.splits if_splits)

text \<open>
  Claim C5. Selection is strictly elitist: the boards recombined are \<open>population[0]\<close>
  and \<open>population[1]\<close>, which in a sorted population are a fittest board and a fittest
  of the others; both children are appended, and the mutation pass runs over the old
  boards first and then over the two children, each child getting its own roll (the
  first child is mutated exactly when its roll passes the test).
\<close>

theorem elitist_selection:
  assumes "0 < n" and "2 \<le> length population" and "boards_of_size n population"
    and "sorted_by_fitness population"
  shows "\<exists>child_1 child_2 g1 old g2 kids g3.
           permutation (population ! 0) (population ! 1) n g = Inr (child_1, child_2, g1) \<and>
           board child_1 = take (g 0 mod n) (board (population ! 0)) @
                           drop (g 0 mod n) (board (population ! 1)) \<and>
           board child_2 = take (g 0 mod n) (board (population ! 1)) @
                           drop (g 0 mod n) (board (population ! 0)) \<and>
           mutation_pass cfg n population g1 = Inr (old, g2) \<and>
           length old = length population \<and>
           mutation_pass cfg n [child_1, child_2] g2 = Inr (kids, g3) \<and>
           length kids = 2 \<and>
           (if roll_mutates cfg (g2 0 mod 100)
            then \<exists>h. mutation child_1 n (\<lambda>i. g2 (Suc i)) = Inr (kids ! 0, h)
            else kids ! 0 = child_1) \<and>
           grow cfg n population g = Inr (sort_population (old @ kids), g3) \<and>
           (\<forall>k<length population.
              valid_queens (population ! k) \<le> valid_queens (population ! 0)) \<and>
           (\<forall>k<length population. 1 \<le> k \<longrightarrow>
              valid_queens (population ! k) \<le> valid_queens (population ! 1))"
proof -
  let ?p = "g 0 mod n"
  let ?c1 = "update_valid_queens
      ((population ! 0)\<lparr>board := take ?p (board (population ! 0)) @ drop ?p (board (population ! 1))\<rparr>)"
  let ?c2 = "update_valid_queens
      ((population ! 1)\<lparr>board := take ?p (board (population ! 1)) @ drop ?p (board (population ! 0))\<rparr>)"
  let ?g1 = "\<lambda>i. g (Suc i)"
  from assms have len: "length (board (population ! 0)) = n" "length (board (population ! 1)) = n"
    by (auto intro!: boards_of_size_nth)
  have p: "permutation (population ! 0) (population ! 1) n g = Inr (?c1, ?c2, ?g1)"
    by (rule permutation_exact[OF assms(1) len])
  have "\<forall>q\<in>set population. length (board q) = n"
    using assms(3) by (simp add: boards_of_size_iff)
  from mutation_pass_total[OF assms(1) this] obtain old g2 where
    o: "mutation_pass cfg n population ?g1 = Inr (old, g2)" by blast
  have lo: "length old = length population" by (rule mutation_pass_length[OF o])
  from permutation_length[OF assms(1) len p]
  have "\<forall>q\<in>set [?c1, ?c2]. length (board q) = n" by simp
  from mutation_pass_total[OF assms(1) this] obtain kids g3 where
    k: "mutation_pass cfg n [?c1, ?c2] g2 = Inr (kids, g3)" by blast
  have lk: "length kids = 2" using mutation_pass_length[OF k] by simp
  have hd: "if roll_mutates cfg (g2 0 mod 100)
            then \<exists>h. mutation ?c1 n (\<lambda>i. g2 (Suc i)) = Inr (kids ! 0, h)
            else kids ! 0 = ?c1"
    by (rule mutation_pass_head[OF k])
  have "mutation_pass cfg n (population @ [?c1, ?c2]) ?g1 = Inr (old @ kids, g3)"
    using o k by (simp add: mutation_pass_append)
  then have gr: "grow cfg n population g = Inr (sort_population (old @ kids), g3)"
    using assms(2) p by (simp add: grow_def)
  have s0: "\<forall>k<length population. valid_queens (population ! k) \<le> valid_queens (population ! 0)"
    using sorted_by_fitness_nth[OF assms(4), of 0] by simp
  have s1: "\<forall>k<length population. 1 \<le> k \<longrightarrow>
              valid_queens (population ! k) \<le> valid_queens (population ! 1)"
    using sorted_by_fitness_nth[OF assms(4), of 1] by simp
  have b1: "board ?c1 = take ?p (board (population ! 0)) @ drop ?p (board (population ! 1))"
    and b2: "board ?c2 = take ?p (board (population ! 1)) @ drop ?p (board (population ! 0))"
    by simp_all
  from p b1 b2 o lo k lk hd gr s0 s1 show ?thesis by blast
qed

subsection \<open>Concrete runs\<close>

text \<open>
  The runs below use the constant random stream \<open>\<lambda>i. 99\<close>: every pivot and every
  mutated row is \<open>99 mod 4 = 3\<close>, every new column is 3, and every roll is 99, which
  passes the test, so every board is mutated in every pass.
\<close>

lemma count_valid_queens_examples:
  "count_valid_queens [3, 3, 3, 3] = 0"
  "count_valid_queens [Suc 0, 3, 0, 3] = 2"
  "count_valid_queens [0, 2, Suc 0, 3] = 0"
  "count_valid_queens [0, 2, Suc 0, Suc 0] = Suc 0"
  by (simp_all add: count_valid_queens_def valid_queen_def attacks_def upt_conv_Cons)

lemma random_board_numeral:
  "random_board (numeral v) n g =
     (case randrange n g of
        Inl e \<Rightarrow> Inl e
      | Inr (c, g1) \<Rightarrow>
          (case random_board (pred_numeral v) n g1 of
             Inl e \<Rightarrow> Inl e
           | Inr (cs, g2) \<Rightarrow> Inr (c # cs, g2)))"
  by (simp add: numeral_eq_Suc)

lemma init_population_numeral:
  "init_population (numeral v) n g =
     (case Queen_init n g of
        Inl e \<Rightarrow> Inl e
      | Inr (q, g1) \<Rightarrow>
          (case init_population (pred_numeral v) n g1 of
             Inl e \<Rightarrow> Inl e
           | Inr (qs, g2) \<Rightarrow> Inr (q # qs, g2)))"
  by (simp add: numeral_eq_Suc)

lemma random_board_example: "random_board 4 4 (\<lambda>i. 99) = Inr ([3, 3, 3, 3], \<lambda>i. 99)"
  by (simp add: random_board_numeral randrange_def)

lemma Queen_init_example:
  "Queen_init 4 (\<lambda>i. 99) = Inr (\<lparr>board = [3, 3, 3, 3], valid_queens = 0\<rparr>, \<lambda>i. 99)"
  by (simp add: Queen_init_def random_board_example update_valid_queens_def
      count_valid_queens_examples)

lemma init_population_example:
  "init_population 2 4 (\<lambda>i. 99) =
   Inr ([\<lparr>board = [3, 3, 3, 3], valid_queens = 0\<rparr>, \<lparr>board = [3, 3, 3, 3], valid_queens = 0\<rparr>],
        \<lambda>i. 99)"
  by (simp add: init_population_numeral Queen_init_example)

lemma sort_population_example:
  "sort_population
     [\<lparr>board = [3, 3, 3, 3], valid_queens = 0\<rparr>, \<lparr>board = [3, 3, 3, 3], valid_queens = 0\<rparr>] =
   [\<lparr>board = [3, 3, 3, 3], valid_queens = 0\<rparr>, \<lparr>board = [3, 3, 3, 3], valid_queens = 0\<rparr>]"
  by (simp add: sort_population_def)

lemma iteration_limit_example:
  "iteration \<lparr>population_size = 2, probability_of_mutation = 50, max_iterations = 2\<rparr> 4
     [\<lparr>board = [3, 3, 3, 3], valid_queens = 0\<rparr>, \<lparr>board = [3, 3, 3, 3], valid_queens = 0\<rparr>]
     (\<lambda>i. 99) =
   Inr ([\<lparr>board = [3, 3, 3, 3], valid_queens = 0\<rparr>, \<lparr>board = [3, 3, 3, 3], valid_queens = 0\<rparr>],
        \<lambda>i. 99)"
  by (simp add: iteration_def grow_def permutation_exact mutation_exact randrange_def
      roll_mutates_def sort_population_def update_valid_queens_def count_valid_queens_examples)

lemma grow_example:
  "grow \<lparr>population_size = 2, probability_of_mutation = 50, max_iterations = 2\<rparr> 4
     [\<lparr>board = [1, 3, 0, 1], valid_queens = 0\<rparr>, \<lparr>board = [0, 2, 1, 3], valid_queens = 0\<rparr>]
     (\<lambda>i. 99) =
   Inr ([\<lparr>board = [1, 3, 0, 3], valid_queens = 2\<rparr>, \<lparr>board = [1, 3, 0, 3], valid_queens = 2\<rparr>,
         \<lparr>board = [0, 2, 1, 3], valid_queens = 0\<rparr>, \<lparr>board = [0, 2, 1, 3], valid_queens = 0\<rparr>],
        \<lambda>i. 99)"
  by (simp add: grow_def permutation_exact mutation_exact randrange_def
      roll_mutates_def sort_population_def update_valid_queens_def count_valid_queens_examples)

lemma iteration_example:
  "iteration \<lparr>population_size = 2, probability_of_mutation = 50, max_iterations = 2\<rparr> 4
     [\<lparr>board = [1, 3, 0, 1], valid_queens = 0\<rparr>, \<lparr>board = [0, 2, 1, 3], valid_queens = 0\<rparr>]
     (\<lambda>i. 99) =
   Inr ([\<lparr>board = [1, 3, 0, 3], valid_queens = 2\<rparr>, \<lparr>board = [1, 3, 0, 3], valid_queens = 2\<rparr>],
        \<lambda>i. 99)"
  using grow_example by (simp add: iteration_def)

theorem population_invariant_witness:
  "iteration \<lparr>population_size = 2, probability_of_mutation = 50, max_iterations = 2\<rparr> 4
     [\<lparr>board = [1, 3, 0, 1], valid_queens = 0\<rparr>, \<lparr>board = [0, 2, 1, 3], valid_queens = 0\<rparr>]
     (\<lambda>i. 99) =
   Inr ([\<lparr>board = [1, 3, 0, 3], valid_queens = 2\<rparr>, \<lparr>board = [1, 3, 0, 3], valid_queens = 2\<rparr>],
        \<lambda>i. 99) \<and>
   sorted_by_fitness
     [\<lparr>board = [1, 3, 0, 3], valid_queens = 2\<rparr>, \<lparr>board = [1, 3, 0, 3], valid_queens = 2\<rparr>] \<and>
   (\<exists>grown. grow \<lparr>population_size = 2, probability_of_mutation = 50, max_iterations = 2\<rparr> 4
       [\<lparr>board = [1, 3, 0, 1], valid_queens = 0\<rparr>, \<lparr>board = [0, 2, 1, 3], valid_queens = 0\<rparr>]
       (\<lambda>i. 99) = Inr (grown, \<lambda>i. 99) \<and> length grown = 4 \<and> sorted_by_fitness grown)"
proof -
  let ?cfg = "\<lparr>population_size = 2, probability_of_mutation = 50, max_iterations = 2\<rparr>"
  let ?population =
    "[\<lparr>board = [1, 3, 0, 1], valid_queens = 0\<rparr>, \<lparr>board = [0, 2, 1, 3], valid_queens = 0\<rparr>]"
  have l: "length ?population = population_size ?cfg" by simp
  from population_invariant[OF l iteration_example] iteration_example
  show ?thesis by auto
qed

lemma while_loop_example:
  "while_loop \<lparr>population_size = 2, probability_of_mutation = 50, max_iterations = 2\<rparr> 4
     [\<lparr>board = [3, 3, 3, 3], valid_queens = 0\<rparr>, \<lparr>board = [3, 3, 3, 3], valid_queens = 0\<rparr>] 0
     (\<lambda>i. 99) =
   Inr ([\<lparr>board = [3, 3, 3, 3], valid_queens = 0\<rparr>, \<lparr>board = [3, 3, 3, 3], valid_queens = 0\<rparr>],
        2, \<lambda>i. 99)"
proof -
  let ?cfg = "\<lparr>population_size = 2, probability_of_mutation = 50, max_iterations = 2\<rparr>"
  let ?b = "\<lparr>board = [3, 3, 3, 3], valid_queens = 0\<rparr>"
  let ?g = "\<lambda>i::nat. 99::nat"
  have w2: "while_loop ?cfg 4 [?b, ?b] (Suc (Suc 0)) ?g = Inr ([?b, ?b], Suc (Suc 0), ?g)"
    by (subst while_loop.simps) simp
  have w1: "while_loop ?cfg 4 [?b, ?b] (Suc 0) ?g = Inr ([?b, ?b], Suc (Suc 0), ?g)"
    by (subst while_loop.simps) (simp add: iteration_limit_example w2)
  have w0: "while_loop ?cfg 4 [?b, ?b] 0 ?g = Inr ([?b, ?b], Suc (Suc 0), ?g)"
    by (subst while_loop.simps) (simp add: iteration_limit_example w1)
  then show ?thesis by (simp add: numeral_2_eq_2)
qed

lemma evolve_example:
  "evolve \<lparr>population_size = 2, probability_of_mutation = 50, max_iterations = 2\<rparr> 4 (\<lambda>i. 99) =
   Inr ([\<lparr>board = [3, 3, 3, 3], valid_queens = 0\<rparr>, \<lparr>board = [3, 3, 3, 3], valid_queens = 0\<rparr>],
        2, \<lambda>i. 99)"
  by (simp add: evolve_def init_population_example sort_population_example
      while_loop_example)

theorem loop_terminates_witness:
  "\<exists>population it g'.
     evolve \<lparr>population_size = 2, probability_of_mutation = 50, max_iterations = 2\<rparr> 4 (\<lambda>i. 99) =
       Inr (population, it, g') \<and>
     population =
       [\<lparr>board = [3, 3, 3, 3], valid_queens = 0\<rparr>, \<lparr>board = [3, 3, 3, 3], valid_queens = 0\<rparr>] \<and>
     it = 2 \<and>
     it \<le> max_iterations \<lparr>population_size = 2, probability_of_mutation = 50, max_iterations = 2\<rparr>"
proof -
  let ?cfg = "\<lparr>population_size = 2, probability_of_mutation = 50, max_iterations = 2\<rparr>"
  have h1: "(4::nat) \<le> 4" by simp
  have h2: "2 \<le> population_size ?cfg" by simp
  from loop_terminates[OF h1 h2, of "\<lambda>i. 99"] evolve_example
  show ?thesis by auto
qed

theorem elitist_selection_witness:
  "sorted_by_fitness
     [\<lparr>board = [1, 3, 0, 1], valid_queens = 0\<rparr>, \<lparr>board = [0, 2, 1, 3], valid_queens = 0\<rparr>] \<and>
   boards_of_size 4
     [\<lparr>board = [1, 3, 0, 1], valid_queens = 0\<rparr>, \<lparr>board = [0, 2, 1, 3], valid_queens = 0\<rparr>] \<and>
   (\<exists>child_1 child_2 g1.
      permutation \<lparr>board = [1, 3, 0, 1], valid_queens = 0\<rparr> \<lparr>board = [0, 2, 1, 3], valid_queens = 0\<rparr> 4
        (\<lambda>i. 99) = Inr (child_1, child_2, g1) \<and>
      board child_1 = [1, 3, 0, 3] \<and> board child_2 = [0, 2, 1, 1] \<and>
      grow \<lparr>population_size = 2, probability_of_mutation = 50, max_iterations = 2\<rparr> 4
        [\<lparr>board = [1, 3, 0, 1], valid_queens = 0\<rparr>, \<lparr>board = [0, 2, 1, 3], valid_queens = 0\<rparr>]
        (\<lambda>i. 99) =
      Inr ([\<lparr>board = [1, 3, 0, 3], valid_queens = 2\<rparr>, \<lparr>board = [1, 3, 0, 3], valid_queens = 2\<rparr>,
            \<lparr>board = [0, 2, 1, 3], valid_queens = 0\<rparr>, \<lparr>board = [0, 2, 1, 3], valid_queens = 0\<rparr>],
           \<lambda>i. 99))"
proof -
  let ?cfg = "\<lparr>population_size = 2, probability_of_mutation = 50, max_iterations = 2\<rparr>"
  let ?population =
    "[\<lparr>board = [1, 3, 0, 1], valid_queens = 0\<rparr>, \<lparr>board = [0, 2, 1, 3], valid_queens = 0\<rparr>]"
  have h1: "(0::nat) < 4" by simp
  have h2: "2 \<le> length ?population" by simp
  have h3: "boards_of_size 4 ?population" by (simp add: boards_of_size_def)
  have h4: "sorted_by_fitness ?population" by (simp add: sorted_by_fitness_def)
  from elitist_selection[OF h1 h2 h3 h4, of "\<lambda>i. 99" ?cfg]
  have "\<exists>child_1 child_2 g1.
      permutation \<lparr>board = [1, 3, 0, 1], valid_queens = 0\<rparr>
        \<lparr>board = [0, 2, 1, 3], valid_queens = 0\<rparr> 4 (\<lambda>i. 99) = Inr (child_1, child_2, g1) \<and>
      board child_1 = [1, 3, 0, 3] \<and> board child_2 = [0, 2, 1, 1]"
    by (elim exE conjE) auto
  with h3 h4 grow_example show ?thesis by auto
qed

subsection \<open>The command line\<close>

lemma decimal_literal_examples:
  "decimal_literal ''3'' = Some 3"
  "decimal_literal ''8'' = Some 8"
  "decimal_literal ''x'' = None"
  by (simp_all add: decimal_literal_def digit_def)

text \<open>
  Claim C9. The arguments are checked before any state of the algorithm exists. When
  the argument count is neither 1 nor 2 (\<open>sys.argv\<close>, which counts the program name,
  has neither 2 nor 3 entries), the program prints the usage message and quits; when the
  count is right and the board size converts to an integer below 4, it prints the
  board-size message and quits. In both cases the run ends in the validation part, before
  the population is created, and nothing else is printed.
\<close>

theorem argument_validation:
  "(length argv \<noteq> 2 \<and> length argv \<noteq> 3 \<longrightarrow>
      validate e argv = Inl \<lparr>printed = [Message usage_message], ending = Quit\<rparr> \<and>
      main e argv = \<lparr>printed = [Message usage_message], ending = Quit\<rparr>) \<and>
   ((length argv = 2 \<or> length argv = 3) \<and> to_int e (argv ! 1) = Some k \<and> k < 4 \<longrightarrow>
      validate e argv = Inl \<lparr>printed = [Message size_message], ending = Quit\<rparr> \<and>
      main e argv = \<lparr>printed = [Message size_message], ending = Quit\<rparr>)"
  by (auto simp: main_def validate_def)

theorem argument_validation_witness:
  "main example_env [''ec.py''] = \<lparr>printed = [Message usage_message], ending = Quit\<rparr> \<and>
   main example_env [''ec.py'', ''8'', ''1'', ''2''] =
     \<lparr>printed = [Message usage_message], ending = Quit\<rparr> \<and>
   to_int example_env ''3'' = Some 3 \<and>
   main example_env [''ec.py'', ''3''] = \<lparr>printed = [Message size_message], ending = Quit\<rparr>"
proof -
  have t: "to_int example_env ([''ec.py'', ''3''] ! 1) = Some 3"
    by (simp add: example_env_def decimal_literal_examples)
  from argument_validation[of "[''ec.py'']" example_env]
    argument_validation[of "[''ec.py'', ''8'', ''1'', ''2'']" example_env]
    argument_validation[of "[''ec.py'', ''3'']" example_env 3] t
  show ?thesis by simp
qed

text \<open>
  Claim C10 says that an argument that is not an integer literal, the board size or the
  seed, ends the program with an uncaught conversion exception and not with the usage or
  the board-size message. The seed is converted after the board size is checked: with
  the arguments \<open>3\<close> and \<open>x\<close> the program prints the board-size message and quits, and
  the seed is never converted.
\<close>

theorem seed_conversion_counterexample:
  "to_int example_env ''3'' = Some 3 \<and> to_int example_env ''x'' = None \<and>
   main example_env [''ec.py'', ''3'', ''x''] =
     \<lparr>printed = [Message size_message], ending = Quit\<rparr> \<and>
   ending (main example_env [''ec.py'', ''3'', ''x'']) \<noteq> Uncaught ValueError"
  by (simp add: main_def validate_def example_env_def decimal_literal_examples)

text \<open>
  Claim C10, amended. With 1 or 2 arguments: when the board size is not an integer
  literal, the program ends with an uncaught ValueError and prints nothing; when the
  board size is an integer of at least 4 and the seed is given and is not an integer
  literal, the program ends with an uncaught ValueError and prints nothing; when the
  board size is an integer below 4, the program prints the board-size message and quits
  whatever the seed is.
\<close>

theorem conversion_errors:
  "((length argv = 2 \<or> length argv = 3) \<and> to_int e (argv ! 1) = None \<longrightarrow>
      main e argv = \<lparr>printed = [], ending = Uncaught ValueError\<rparr>) \<and>
   (length argv = 3 \<and> to_int e (argv ! 1) = Some k \<and> 4 \<le> k \<and> to_int e (argv ! 2) = None \<longrightarrow>
      main e argv = \<lparr>printed = [], ending = Uncaught ValueError\<rparr>) \<and>
   (length argv = 3 \<and> to_int e (argv ! 1) = Some k \<and> k < 4 \<longrightarrow>
      main e argv = \<lparr>printed = [Message size_message], ending = Quit\<rparr>)"
  by (auto simp: main_def validate_def)

theorem conversion_errors_witness:
  "to_int example_env ''x'' = None \<and> to_int example_env ''8'' = Some 8 \<and>
   main example_env [''ec.py'', ''x''] = \<lparr>printed = [], ending = Uncaught ValueError\<rparr> \<and>
   main example_env [''ec.py'', ''x'', ''1''] = \<lparr>printed = [], ending = Uncaught ValueError\<rparr> \<and>
   main example_env [''ec.py'', ''8'', ''x''] = \<lparr>printed = [], ending = Uncaught ValueError\<rparr>"
proof -
  have t: "to_int example_env ''x'' = None" "to_int example_env ''8'' = Some 8"
    by (simp_all add: example_env_def decimal_literal_examples)
  from conversion_errors[of "[''ec.py'', ''x'']" example_env]
    conversion_errors[of "[''ec.py'', ''x'', ''1'']" example_env]
    conversion_errors[of "[''ec.py'', ''8'', ''x'']" example_env 8] t
  show ?thesis by simp
qed

end
